theory Spec2Isabelle
  imports Main
begin

section \<open>Offline synchronisation layer of the frontend template\<close>

text \<open>
  The model follows the TypeScript of the offline-first handbook in
  \<^verbatim>\<open>frontend/docs/frontend_Arc_Document.md\<close>: the types of \<^verbatim>\<open>src/types/sync.ts\<close>,
  the Dexie database of \<^verbatim>\<open>src/services/db.ts\<close>, the \<^verbatim>\<open>SyncService\<close> of
  \<^verbatim>\<open>src/services/syncService.ts\<close>, the organization repository and the
  \<^verbatim>\<open>useAddOrganization\<close> hook.

  Promises are modelled by their settled value: a rejected promise is \<open>Inl\<close> of the
  error, a fulfilled one \<open>Inr\<close> of the value. Mutation of the IndexedDB tables, of the
  service's private flag and of the remote system is explicit state passing.
\<close>

subsection \<open>Types\<close>

datatype SyncStatus = Synced | Pending | Error

text \<open>The field \<^verbatim>\<open>id\<close> of the source is written \<open>id'\<close> (HOL has a constant \<open>id\<close>).\<close>

record OfflineEntity =
  id' :: string
  syncStatus :: SyncStatus
  lastModified :: string

record Organization = OfflineEntity +
  name :: string

datatype EntityName = OrganizationEntity | AssessmentEntity | UserEntity

datatype Action = Create | Update | Delete

text \<open>
  A \<^verbatim>\<open>SyncQueueItem\<close>. Its optional \<^verbatim>\<open>id\<close> is the auto-incremented primary key of
  the table (schema \<^verbatim>\<open>"++id"\<close>): absent in the object handed to \<^verbatim>\<open>add\<close>, present in
  every row read back. A row of the table is therefore a pair of the key and the
  remaining fields. The payload (\<^verbatim>\<open>any\<close> in the source) is the entity object the
  hook enqueues; the engine reads only its \<^verbatim>\<open>id\<close> and passes it on.
\<close>

record SyncQueueItem =
  entity :: EntityName
  action :: Action
  payload :: Organization
  retries :: "nat option"
  error :: "string option"

text \<open>
  \<^verbatim>\<open>Partial<Organization>\<close>, the argument of \<^verbatim>\<open>update\<close>: each field is either given or
  left out. The primary key is not among the fields an update changes.
\<close>

record OrganizationChanges =
  new_syncStatus :: "SyncStatus option"
  new_lastModified :: "string option"
  new_name :: "string option"

definition applyChanges :: "OrganizationChanges \<Rightarrow> Organization \<Rightarrow> Organization" where
  "applyChanges c org =
     org\<lparr>syncStatus := (case new_syncStatus c of None \<Rightarrow> syncStatus org | Some v \<Rightarrow> v),
         lastModified := (case new_lastModified c of None \<Rightarrow> lastModified org | Some v \<Rightarrow> v),
         name := (case new_name c of None \<Rightarrow> name org | Some v \<Rightarrow> v)\<rparr>"

subsection \<open>The database (\<^verbatim>\<open>AppDatabase\<close>) and its two tables\<close>

text \<open>
  \<open>organizations\<close> holds one row per primary key \<^verbatim>\<open>id\<close>; \<open>sync_queue\<close> holds its rows
  in key order, which is the order of \<^verbatim>\<open>toArray()\<close>; \<open>sync_queue_key\<close> is the last key
  the \<^verbatim>\<open>++id\<close> generator handed out. The rows of \<open>organizations\<close> are kept in
  insertion order; nothing below depends on the order in which they are listed.
\<close>

record AppDatabase =
  organizations :: "Organization list"
  sync_queue :: "(nat \<times> SyncQueueItem) list"
  sync_queue_key :: nat

datatype DexieError = ConstraintError

subsection \<open>The organization repository\<close>

text \<open>
  Each method of \<^verbatim>\<open>organizationRepository\<close> is the Dexie operation of the same name
  on \<^verbatim>\<open>db.organizations\<close>.

  \<^verbatim>\<open>Table.add\<close>: rejects with a ConstraintError when the primary key is taken.
\<close>

definition organizationRepository_add ::
  "Organization \<Rightarrow> AppDatabase \<Rightarrow> (DexieError + string) \<times> AppDatabase" where
  "organizationRepository_add org d =
     (if id' org \<in> set (map id' (organizations d)) then (Inl ConstraintError, d)
      else (Inr (id' org), d\<lparr>organizations := organizations d @ [org]\<rparr>))"

text \<open>
  \<^verbatim>\<open>Table.update(key, changes)\<close>: fulfils with the number of rows updated, 1 when a row
  with the key exists and the changes alter it, otherwise 0. It never rejects for an
  unknown key.
\<close>

definition organizationRepository_update ::
  "string \<Rightarrow> OrganizationChanges \<Rightarrow> AppDatabase \<Rightarrow> (DexieError + nat) \<times> AppDatabase" where
  "organizationRepository_update i c d =
     (Inr (if \<exists>org \<in> set (organizations d). id' org = i \<and> applyChanges c org \<noteq> org
           then 1 else 0),
      d\<lparr>organizations :=
           map (\<lambda>org. if id' org = i then applyChanges c org else org) (organizations d)\<rparr>)"

text \<open>\<^verbatim>\<open>Table.delete(key)\<close>: removes the row; fulfils also when there is none.\<close>

definition organizationRepository_delete ::
  "string \<Rightarrow> AppDatabase \<Rightarrow> (DexieError + unit) \<times> AppDatabase" where
  "organizationRepository_delete i d =
     (Inr (), d\<lparr>organizations := filter (\<lambda>org. id' org \<noteq> i) (organizations d)\<rparr>)"

definition organizationRepository_getAll :: "AppDatabase \<Rightarrow> Organization list" where
  "organizationRepository_getAll d = organizations d"

subsection \<open>The table \<^verbatim>\<open>db.sync_queue\<close>\<close>

definition sync_queue_toArray :: "AppDatabase \<Rightarrow> (nat \<times> SyncQueueItem) list" where
  "sync_queue_toArray d = sync_queue d"

definition sync_queue_add :: "SyncQueueItem \<Rightarrow> AppDatabase \<Rightarrow> nat \<times> AppDatabase" where
  "sync_queue_add item d =
     (let k = Suc (sync_queue_key d)
      in (k, d\<lparr>sync_queue := sync_queue d @ [(k, item)], sync_queue_key := k\<rparr>))"

definition sync_queue_delete :: "nat \<Rightarrow> AppDatabase \<Rightarrow> AppDatabase" where
  "sync_queue_delete k d = d\<lparr>sync_queue := filter (\<lambda>row. fst row \<noteq> k) (sync_queue d)\<rparr>"

text \<open>\<^verbatim>\<open>db.sync_queue.update(key, {error: message})\<close>.\<close>

definition sync_queue_update_error :: "nat \<Rightarrow> string \<Rightarrow> AppDatabase \<Rightarrow> AppDatabase" where
  "sync_queue_update_error k msg d =
     d\<lparr>sync_queue :=
         map (\<lambda>row. if fst row = k then (fst row, (snd row)\<lparr>error := Some msg\<rparr>) else row)
           (sync_queue d)\<rparr>"

subsection \<open>The remote API and the state of the running application\<close>

text \<open>
  The three calls the engine makes through a handler's \<^verbatim>\<open>api\<close>. The server is outside
  the repository: it is a parameter \<open>api\<close>, a function of the server's own state \<open>'r\<close>
  and the call, giving the outcome of the awaited promise and the server's next state.
\<close>

datatype ApiCall =
  ApiCreate Organization
| ApiUpdate string Organization
| ApiDelete string

datatype ApiResult = Resolved | Rejected string

type_synonym 'r Api = "'r \<Rightarrow> ApiCall \<Rightarrow> ApiResult \<times> 'r"

text \<open>
  \<open>isSyncing\<close> is the private flag of \<^verbatim>\<open>SyncService\<close>, \<open>onLine\<close> is
  \<^verbatim>\<open>navigator.onLine\<close>. \<open>network\<close> is a log added to the model: every call made
  through the API client is appended to it with the key of the queue row that caused
  it and the outcome.
\<close>

record 'r State =
  db :: AppDatabase
  isSyncing :: bool
  onLine :: bool
  remote :: 'r
  network :: "(nat \<times> ApiCall \<times> ApiResult) list"

subsection \<open>\<^verbatim>\<open>SyncService\<close>\<close>

text \<open>
  The registry \<^verbatim>\<open>entityHandlers\<close> has the one key \<^verbatim>\<open>organization\<close>; looking up any
  other entity name gives \<^verbatim>\<open>undefined\<close>.
\<close>

datatype Handler = OrganizationHandler

definition entityHandlers :: "EntityName \<Rightarrow> Handler option" where
  "entityHandlers e = (case e of OrganizationEntity \<Rightarrow> Some OrganizationHandler | _ \<Rightarrow> None)"

text \<open>
  Reading \<^verbatim>\<open>handler.api\<close> of \<^verbatim>\<open>undefined\<close> throws a TypeError inside the \<^verbatim>\<open>try\<close>
  block; this is its message (the exact wording is the JavaScript engine's).
\<close>

definition undefinedHandlerMessage :: string where
  "undefinedHandlerMessage = ''Cannot read properties of undefined''"

text \<open>The \<^verbatim>\<open>switch (item.action)\<close>: the call made for an item.\<close>

definition apiCall :: "SyncQueueItem \<Rightarrow> ApiCall" where
  "apiCall item =
     (case action item of
        Create \<Rightarrow> ApiCreate (payload item)
      | Update \<Rightarrow> ApiUpdate (id' (payload item)) (payload item)
      | Delete \<Rightarrow> ApiDelete (id' (payload item)))"

definition handler_repo_update ::
  "Handler \<Rightarrow> string \<Rightarrow> OrganizationChanges \<Rightarrow> AppDatabase \<Rightarrow> (DexieError + nat) \<times> AppDatabase" where
  "handler_repo_update h i changes d =
     (case h of OrganizationHandler \<Rightarrow> organizationRepository_update i changes d)"

text \<open>The \<^verbatim>\<open>catch\<close> block: the message is stored in the row's \<^verbatim>\<open>error\<close> field.\<close>

definition catchBlock :: "nat \<Rightarrow> string \<Rightarrow> 'r State \<Rightarrow> 'r State" where
  "catchBlock k msg s = s\<lparr>db := sync_queue_update_error k msg (db s)\<rparr>"

text \<open>The body of the \<^verbatim>\<open>for\<close> loop of \<^verbatim>\<open>processQueue\<close> for one row of the snapshot.\<close>

definition processItem :: "'r Api \<Rightarrow> nat \<times> SyncQueueItem \<Rightarrow> 'r State \<Rightarrow> 'r State" where
  "processItem api row s =
     (let k = fst row; item = snd row in
      case entityHandlers (entity item) of
        None \<Rightarrow> catchBlock k undefinedHandlerMessage s
      | Some handler \<Rightarrow>
          (let call = apiCall item;
               (result, r) = api (remote s) call;
               s1 = s\<lparr>remote := r, network := network s @ [(k, call, result)]\<rparr>
           in case result of
                Rejected msg \<Rightarrow> catchBlock k msg s1
              | Resolved \<Rightarrow>
                  (let s2 = (if action item \<noteq> Delete
                             then s1\<lparr>db := snd (handler_repo_update handler (id' (payload item))
                                              \<lparr>new_syncStatus = Some Synced,
                                               new_lastModified = None,
                                               new_name = None\<rparr> (db s1))\<rparr>
                             else s1)
                   in s2\<lparr>db := sync_queue_delete k (db s2)\<rparr>)))"

fun processItems :: "'r Api \<Rightarrow> (nat \<times> SyncQueueItem) list \<Rightarrow> 'r State \<Rightarrow> 'r State" where
  "processItems api [] s = s"
| "processItems api (row # rows) s = processItems api rows (processItem api row s)"

definition processQueue :: "'r Api \<Rightarrow> 'r State \<Rightarrow> 'r State" where
  "processQueue api s =
     (if isSyncing s \<or> \<not> onLine s then s
      else
        (let s1 = s\<lparr>isSyncing := True\<rparr>;
             queueItems = sync_queue_toArray (db s1)
         in if length queueItems = 0 then s1\<lparr>isSyncing := False\<rparr>
            else (processItems api queueItems s1)\<lparr>isSyncing := False\<rparr>))"

text \<open>
  \<^verbatim>\<open>processQueue\<close> is an \<^verbatim>\<open>async\<close> function: a call runs without interruption up to
  its next \<^verbatim>\<open>await\<close>, where other callbacks of the single JavaScript thread may run.
  A suspended call is a \<open>Continuation\<close>: it waits for \<^verbatim>\<open>toArray()\<close>, or it is in the
  loop with the rows of its snapshot that are still to be processed. \<open>processQueue_enter\<close>
  is the part of a call before the first \<^verbatim>\<open>await\<close> (the guard and the setting of the
  flag), \<open>processQueue_resume\<close> runs a suspended call up to its next suspension; a
  result \<open>None\<close> means that the call has returned. The awaits inside the loop body
  are not split further: no step between them reads or writes \<open>isSyncing\<close>.
\<close>

datatype Continuation = AwaitToArray | InLoop "(nat \<times> SyncQueueItem) list"

definition processQueue_enter :: "'r State \<Rightarrow> 'r State \<times> Continuation option" where
  "processQueue_enter s =
     (if isSyncing s \<or> \<not> onLine s then (s, None)
      else (s\<lparr>isSyncing := True\<rparr>, Some AwaitToArray))"

fun processQueue_resume ::
  "'r Api \<Rightarrow> Continuation \<Rightarrow> 'r State \<Rightarrow> 'r State \<times> Continuation option" where
  "processQueue_resume api AwaitToArray s =
     (let queueItems = sync_queue_toArray (db s)
      in if length queueItems = 0 then (s\<lparr>isSyncing := False\<rparr>, None)
         else (s, Some (InLoop queueItems)))"
| "processQueue_resume api (InLoop []) s = (s\<lparr>isSyncing := False\<rparr>, None)"
| "processQueue_resume api (InLoop (row # rows)) s =
     (processItem api row s, Some (InLoop rows))"

definition pendingCalls :: "Continuation option \<Rightarrow> Continuation list" where
  "pendingCalls c = (case c of None \<Rightarrow> [] | Some k \<Rightarrow> [k])"

text \<open>
  The configurations the application can reach: the state together with the suspended
  calls of \<^verbatim>\<open>processQueue\<close>. The service starts with \<^verbatim>\<open>isSyncing = false\<close> and no
  call running. A trigger (the timer, the \<^verbatim>\<open>online\<close> event, the initial run of
  \<^verbatim>\<open>start\<close>) enters a new call; any suspended call may be resumed; between the steps
  the rest of the application and the world may change the database, the
  connectivity and the server, but not the private flag.
\<close>

inductive reachable :: "'r Api \<Rightarrow> 'r State \<times> Continuation list \<Rightarrow> bool" for api :: "'r Api" where
  start: "\<not> isSyncing s \<Longrightarrow> reachable api (s, [])"
| trigger:
    "reachable api (s, cs) \<Longrightarrow> processQueue_enter s = (s', c) \<Longrightarrow>
     reachable api (s', cs @ pendingCalls c)"
| resume:
    "reachable api (s, cs1 @ c # cs2) \<Longrightarrow> processQueue_resume api c s = (s', c') \<Longrightarrow>
     reachable api (s', cs1 @ pendingCalls c' @ cs2)"
| environment:
    "reachable api (s, cs) \<Longrightarrow> reachable api (s\<lparr>db := d, onLine := b, remote := r\<rparr>, cs)"

subsection \<open>The hook \<^verbatim>\<open>useAddOrganization\<close>\<close>

text \<open>
  \<^verbatim>\<open>mutationFn\<close> builds the new organization and adds it through the repository;
  \<open>uuid\<close> is the value of \<^verbatim>\<open>uuidv4()\<close> and \<open>now\<close> that of
  \<^verbatim>\<open>new Date().toISOString()\<close>. \<^verbatim>\<open>onSuccess\<close> runs only when \<^verbatim>\<open>mutationFn\<close> has
  fulfilled, and enqueues the \<^verbatim>\<open>create\<close> action.
\<close>

definition useAddOrganization_mutationFn ::
  "string \<Rightarrow> string \<Rightarrow> string \<Rightarrow> 'r State \<Rightarrow> (DexieError + Organization) \<times> 'r State" where
  "useAddOrganization_mutationFn uuid now nm s =
     (let newOrg = \<lparr>id' = uuid, syncStatus = Pending, lastModified = now, name = nm\<rparr>
      in case organizationRepository_add newOrg (db s) of
           (Inl e, d) \<Rightarrow> (Inl e, s\<lparr>db := d\<rparr>)
         | (Inr _, d) \<Rightarrow> (Inr newOrg, s\<lparr>db := d\<rparr>))"

definition useAddOrganization_onSuccess :: "Organization \<Rightarrow> 'r State \<Rightarrow> 'r State" where
  "useAddOrganization_onSuccess newOrg s =
     s\<lparr>db := snd (sync_queue_add
                    \<lparr>entity = OrganizationEntity, action = Create, payload = newOrg,
                     retries = None, error = None\<rparr> (db s))\<rparr>"

definition useAddOrganization ::
  "string \<Rightarrow> string \<Rightarrow> string \<Rightarrow> 'r State \<Rightarrow> (DexieError + Organization) \<times> 'r State" where
  "useAddOrganization uuid now nm s =
     (case useAddOrganization_mutationFn uuid now nm s of
        (Inl e, s1) \<Rightarrow> (Inl e, s1)
      | (Inr newOrg, s1) \<Rightarrow> (Inr newOrg, useAddOrganization_onSuccess newOrg s1))"

subsection \<open>Example data\<close>

text \<open>
  Concrete organizations, queue rows, databases and servers, at which the theorems
  below are instantiated. The example servers count the calls they have received.
\<close>

definition acme :: Organization where
  "acme = \<lparr>id' = ''o1'', syncStatus = Pending, lastModified = ''t0'', name = ''Acme''\<rparr>"

definition createAcme :: SyncQueueItem where
  "createAcme = \<lparr>entity = OrganizationEntity, action = Create, payload = acme,
                  retries = None, error = None\<rparr>"

definition updateAcme :: SyncQueueItem where
  "updateAcme = \<lparr>entity = OrganizationEntity, action = Update, payload = acme,
                  retries = None, error = None\<rparr>"

definition deleteAcme :: SyncQueueItem where
  "deleteAcme = \<lparr>entity = OrganizationEntity, action = Delete, payload = acme,
                  retries = None, error = None\<rparr>"

definition createAssessment :: SyncQueueItem where
  "createAssessment = \<lparr>entity = AssessmentEntity, action = Create, payload = acme,
                        retries = None, error = None\<rparr>"

definition acmeDb :: AppDatabase where
  "acmeDb = \<lparr>organizations = [acme], sync_queue = [(1, createAcme)], sync_queue_key = 1\<rparr>"

definition deletingDb :: AppDatabase where
  "deletingDb = \<lparr>organizations = [acme], sync_queue = [(1, createAcme), (2, deleteAcme)],
                  sync_queue_key = 2\<rparr>"

definition idle :: "AppDatabase \<Rightarrow> nat State" where
  "idle d = \<lparr>db = d, isSyncing = False, onLine = True, remote = 0, network = []\<rparr>"

definition serverUp :: "nat Api" where
  "serverUp n c = (Resolved, Suc n)"

definition serverDown :: "nat Api" where
  "serverDown n c = (Rejected ''503'', Suc n)"

definition rename :: OrganizationChanges where
  "rename = \<lparr>new_syncStatus = None, new_lastModified = None, new_name = Some ''Acme Ltd''\<rparr>"

definition twoItemsDb :: AppDatabase where
  "twoItemsDb = \<lparr>organizations = [acme], sync_queue = [(1, createAcme), (2, updateAcme)],
                  sync_queue_key = 2\<rparr>"

definition mixedDb :: AppDatabase where
  "mixedDb = \<lparr>organizations = [acme],
               sync_queue = [(1, createAssessment), (2, createAcme)], sync_queue_key = 2\<rparr>"

definition rejectUpdates :: "nat Api" where
  "rejectUpdates n c =
     (case c of ApiUpdate i org \<Rightarrow> (Rejected ''503'', Suc n) | _ \<Rightarrow> (Resolved, Suc n))"

definition flaky :: "nat Api" where
  "flaky n c = (if n = 0 then (Rejected ''503'', Suc n) else (Resolved, Suc n))"

definition failedOnce :: "nat \<Rightarrow> nat State" where
  "failedOnce n =
     \<lparr>db = \<lparr>organizations = [acme],
             sync_queue = [(1, createAcme\<lparr>error := Some ''503''\<rparr>)], sync_queue_key = 1\<rparr>,
      isSyncing = False, onLine = True, remote = n,
      network = replicate n (1, ApiCreate acme, Rejected ''503'')\<rparr>"

subsection \<open>Auxiliary notions\<close>

text \<open>
  The calls one run of the loop makes, in order: one for each row whose entity has a
  handler, with the outcome the server gives in the state the loop has reached.
\<close>

fun cycleCalls ::
  "'r Api \<Rightarrow> (nat \<times> SyncQueueItem) list \<Rightarrow> 'r State \<Rightarrow> (nat \<times> ApiCall \<times> ApiResult) list" where
  "cycleCalls api [] s = []"
| "cycleCalls api (row # rows) s =
     (case entityHandlers (entity (snd row)) of
        None \<Rightarrow> []
      | Some h \<Rightarrow> [(fst row, apiCall (snd row), fst (api (remote s) (apiCall (snd row))))])
     @ cycleCalls api rows (processItem api row s)"

text \<open>
  The shape the \<^verbatim>\<open>++id\<close> table keeps: no key twice, and no key beyond the last one
  handed out.
\<close>

definition wellKeyed :: "AppDatabase \<Rightarrow> bool" where
  "wellKeyed d =
     (distinct (map fst (sync_queue d)) \<and>
      list_all (\<lambda>k. k \<le> sync_queue_key d) (map fst (sync_queue d)))"

section \<open>Properties\<close>

lemmas run_defs = processQueue_def processItem_def Let_def sync_queue_toArray_def
  entityHandlers_def apiCall_def handler_repo_update_def organizationRepository_update_def
  applyChanges_def catchBlock_def sync_queue_update_error_def sync_queue_delete_def

subsection \<open>One iteration of the loop\<close>

lemma processItem_unregistered:
  "entityHandlers (entity item) = None \<Longrightarrow>
   processItem api (k, item) s = catchBlock k undefinedHandlerMessage s"
  by (simp add: processItem_def)

lemma processItem_rejected:
  "entityHandlers (entity item) = Some h \<Longrightarrow> api (remote s) (apiCall item) = (Rejected msg, r) \<Longrightarrow>
   processItem api (k, item) s =
     catchBlock k msg (s\<lparr>remote := r, network := network s @ [(k, apiCall item, Rejected msg)]\<rparr>)"
  by (simp add: processItem_def)

lemma processItem_resolved_delete:
  "entityHandlers (entity item) = Some h \<Longrightarrow> api (remote s) (apiCall item) = (Resolved, r) \<Longrightarrow>
   action item = Delete \<Longrightarrow>
   processItem api (k, item) s =
     s\<lparr>remote := r, network := network s @ [(k, apiCall item, Resolved)],
       db := sync_queue_delete k (db s)\<rparr>"
  by (simp add: processItem_def)

lemma processItem_resolved_write:
  "entityHandlers (entity item) = Some h \<Longrightarrow> api (remote s) (apiCall item) = (Resolved, r) \<Longrightarrow>
   action item \<noteq> Delete \<Longrightarrow>
   processItem api (k, item) s =
     s\<lparr>remote := r, network := network s @ [(k, apiCall item, Resolved)],
       db := sync_queue_delete k
               (snd (organizationRepository_update (id' (payload item))
                  \<lparr>new_syncStatus = Some Synced, new_lastModified = None, new_name = None\<rparr>
                  (db s)))\<rparr>"
  by (cases h) (simp add: processItem_def handler_repo_update_def Let_def)

lemma organizations_catchBlock [simp]:
  "organizations (db (catchBlock k msg s)) = organizations (db s)"
  by (simp add: catchBlock_def sync_queue_update_error_def)

lemma organizations_sync_queue_delete [simp]:
  "organizations (sync_queue_delete k d) = organizations d"
  by (simp add: sync_queue_delete_def)

lemma processItems_append:
  "processItems api (xs @ ys) s = processItems api ys (processItems api xs s)"
  by (induction xs arbitrary: s) auto

lemma network_catchBlock [simp]: "network (catchBlock k msg s) = network s"
  by (simp add: catchBlock_def)

lemma isSyncing_catchBlock [simp]: "isSyncing (catchBlock k msg s) = isSyncing s"
  by (simp add: catchBlock_def)

lemma sync_queue_catchBlock:
  "sync_queue (db (catchBlock k msg s)) =
     map (\<lambda>row. if fst row = k then (fst row, (snd row)\<lparr>error := Some msg\<rparr>) else row)
       (sync_queue (db s))"
  by (simp add: catchBlock_def sync_queue_update_error_def)

lemma map_fst_catchBlock [simp]:
  "map fst (sync_queue (db (catchBlock k msg s))) = map fst (sync_queue (db s))"
  unfolding sync_queue_catchBlock by (induction "sync_queue (db s)") (simp_all add: comp_def)

lemma keys_catchBlock [simp]:
  "fst ` set (sync_queue (db (catchBlock k msg s))) = fst ` set (sync_queue (db s))"
  using map_fst_catchBlock [of k msg s] by (metis set_map)

lemma sync_queue_repository_update [simp]:
  "sync_queue (snd (organizationRepository_update i c d)) = sync_queue d"
  by (simp add: organizationRepository_update_def)

lemma organizations_repository_update:
  "organizations (snd (organizationRepository_update i c d)) =
     map (\<lambda>org. if id' org = i then applyChanges c org else org) (organizations d)"
  by (simp add: organizationRepository_update_def)

lemma network_processItem:
  "network (processItem api (k, item) s) =
     network s @ (case entityHandlers (entity item) of None \<Rightarrow> []
                  | Some h \<Rightarrow> [(k, apiCall item, fst (api (remote s) (apiCall item)))])"
  by (simp add: processItem_def Let_def handler_repo_update_def
      split: option.splits prod.splits ApiResult.splits Handler.splits)

lemma sync_queue_processItem:
  "sync_queue (db (processItem api (k, item) s)) =
     (case entityHandlers (entity item) of
        None \<Rightarrow> sync_queue (db (catchBlock k undefinedHandlerMessage s))
      | Some h \<Rightarrow>
          (case fst (api (remote s) (apiCall item)) of
             Resolved \<Rightarrow> filter (\<lambda>row. fst row \<noteq> k) (sync_queue (db s))
           | Rejected msg \<Rightarrow> sync_queue (db (catchBlock k msg s))))"
  by (simp add: processItem_def Let_def handler_repo_update_def sync_queue_delete_def
      catchBlock_def
      split: option.splits prod.splits ApiResult.splits Handler.splits)

lemma organizations_processItem:
  "organizations (db (processItem api (k, item) s)) =
     (if entityHandlers (entity item) \<noteq> None \<and> fst (api (remote s) (apiCall item)) = Resolved
         \<and> action item \<noteq> Delete
      then map (\<lambda>org. if id' org = id' (payload item) then org\<lparr>syncStatus := Synced\<rparr> else org)
             (organizations (db s))
      else organizations (db s))"
  by (simp add: processItem_def Let_def handler_repo_update_def sync_queue_delete_def
      catchBlock_def sync_queue_update_error_def organizationRepository_update_def
      applyChanges_def
      split: option.splits prod.splits ApiResult.splits Handler.splits)

lemma keys_processItem:
  "fst ` set (sync_queue (db (processItem api (k, item) s))) =
     fst ` set (sync_queue (db s)) -
       (if entityHandlers (entity item) \<noteq> None \<and> fst (api (remote s) (apiCall item)) = Resolved
        then {k} else {})"
  by (auto simp: sync_queue_processItem split: option.splits ApiResult.splits)

lemma isSyncing_processItem [simp]:
  "isSyncing (processItem api row s) = isSyncing s"
  by (simp add: processItem_def Let_def handler_repo_update_def sync_queue_delete_def
      catchBlock_def
      split: option.splits prod.splits ApiResult.splits Handler.splits)

lemma isSyncing_processItems [simp]:
  "isSyncing (processItems api rows s) = isSyncing s"
  by (induction rows arbitrary: s) auto

lemma apiCall_error [simp]: "apiCall (item\<lparr>error := e\<rparr>) = apiCall item"
  by (cases "action item") (simp_all add: apiCall_def)

lemma map_if_unknown:
  "i \<notin> set (map id' orgs) \<Longrightarrow>
   map (\<lambda>org. if id' org = i then f org else org) orgs = orgs"
  by (induction orgs) auto

lemma filter_unknown:
  "i \<notin> set (map id' orgs) \<Longrightarrow> filter (\<lambda>org. id' org \<noteq> i) orgs = orgs"
  by (induction orgs) auto

subsection \<open>A whole cycle\<close>

lemma processQueue_cycle:
  "\<not> isSyncing s \<Longrightarrow> onLine s \<Longrightarrow>
   processQueue api s =
     (processItems api (sync_queue (db s)) (s\<lparr>isSyncing := True\<rparr>))\<lparr>isSyncing := False\<rparr>"
  by (simp add: processQueue_def sync_queue_toArray_def Let_def)

lemma network_processItems:
  "network (processItems api rows s) = network s @ cycleCalls api rows s"
proof (induction rows arbitrary: s)
  case Nil
  then show ?case by simp
next
  case (Cons row rows)
  obtain k item where row: "row = (k, item)" by (cases row)
  show ?case
    by (simp add: Cons.IH row network_processItem split: option.splits)
qed

lemma cycleCalls_order:
  "map (\<lambda>e. (fst e, fst (snd e))) (cycleCalls api rows s) =
     map (\<lambda>row. (fst row, apiCall (snd row)))
       (filter (\<lambda>row. entityHandlers (entity (snd row)) \<noteq> None) rows)"
  by (induction rows arbitrary: s) (auto split: option.splits)

lemma keys_processItems:
  "fst ` set (sync_queue (db (processItems api rows s))) =
     fst ` set (sync_queue (db s)) - {k. \<exists>c. (k, c, Resolved) \<in> set (cycleCalls api rows s)}"
proof (induction rows arbitrary: s)
  case Nil
  then show ?case by simp
next
  case (Cons row rows)
  obtain k item where row: "row = (k, item)" by (cases row)
  show ?case
    unfolding processItems.simps Cons.IH row keys_processItem
    by (auto split: option.splits)
qed

lemma cycleCalls_row:
  "(k, c, res) \<in> set (cycleCalls api rows s) \<Longrightarrow>
   \<exists>item. (k, item) \<in> set rows \<and> c = apiCall item \<and> entityHandlers (entity item) \<noteq> None"
proof -
  assume "(k, c, res) \<in> set (cycleCalls api rows s)"
  then have "(k, c) \<in> set (map (\<lambda>e. (fst e, fst (snd e))) (cycleCalls api rows s))"
    by force
  then show ?thesis
    unfolding cycleCalls_order by auto
qed

lemma cycleCalls_registered:
  "(k, item) \<in> set rows \<Longrightarrow> entityHandlers (entity item) \<noteq> None \<Longrightarrow>
   (k, apiCall item) \<in> set (map (\<lambda>e. (fst e, fst (snd e))) (cycleCalls api rows s))"
  unfolding cycleCalls_order by force

text \<open>The engine writes no status but \<open>Synced\<close>, and never changes an id.\<close>

lemma synced_processItem:
  "\<forall>org \<in> set (organizations (db s)). id' org = i \<longrightarrow> syncStatus org = Synced \<Longrightarrow>
   \<forall>org \<in> set (organizations (db (processItem api row s))). id' org = i \<longrightarrow> syncStatus org = Synced"
  by (cases row) (auto simp: organizations_processItem)

lemma synced_processItems:
  "\<forall>org \<in> set (organizations (db s)). id' org = i \<longrightarrow> syncStatus org = Synced \<Longrightarrow>
   \<forall>org \<in> set (organizations (db (processItems api rows s))). id' org = i \<longrightarrow> syncStatus org = Synced"
proof (induction rows arbitrary: s)
  case Nil
  then show ?case by simp
next
  case (Cons row rows)
  show ?case
    unfolding processItems.simps
    by (rule Cons.IH) (rule synced_processItem [OF Cons.prems])
qed

lemma synced_after_push:
  assumes "entityHandlers (entity item) \<noteq> None"
    and "fst (api (remote s) (apiCall item)) = Resolved"
    and "action item \<noteq> Delete"
  shows "\<forall>org \<in> set (organizations (db (processItem api (k, item) s))).
           id' org = id' (payload item) \<longrightarrow> syncStatus org = Synced"
  using assms by (auto simp: organizations_processItem)

lemma synced_after_cycle:
  assumes "distinct (map fst rows)"
    and "(k, item) \<in> set rows"
    and "action item \<noteq> Delete"
    and "(k, c, Resolved) \<in> set (cycleCalls api rows s)"
  shows "\<forall>org \<in> set (organizations (db (processItems api rows s))).
           id' org = id' (payload item) \<longrightarrow> syncStatus org = Synced"
  using assms
proof (induction rows arbitrary: s)
  case Nil
  then show ?case by simp
next
  case (Cons row rows)
  obtain k0 item0 where row: "row = (k0, item0)" by (cases row)
  have fresh: "k0 \<notin> fst ` set rows" and dist: "distinct (map fst rows)"
    using Cons.prems(1) by (auto simp: row)
  show ?case
  proof (cases "(k, c, Resolved) \<in> set (cycleCalls api rows (processItem api row s))")
    case True
    then have "k \<in> fst ` set rows"
      using cycleCalls_row [OF True] by force
    with fresh have "k \<noteq> k0" by auto
    with Cons.prems(2) have "(k, item) \<in> set rows" by (simp add: row)
    from Cons.IH [OF dist this Cons.prems(3) True] show ?thesis by simp
  next
    case False
    with Cons.prems(4) have first:
      "entityHandlers (entity item0) \<noteq> None \<and> k = k0 \<and>
       fst (api (remote s) (apiCall item0)) = Resolved"
      unfolding row by (cases "entityHandlers (entity item0)") auto
    have "(k0, item) \<in> set rows \<Longrightarrow> False"
      using fresh by force
    with Cons.prems(2) first have "item = item0" by (auto simp: row)
    with first Cons.prems(3) have
      "\<forall>org \<in> set (organizations (db (processItem api row s))).
           id' org = id' (payload item) \<longrightarrow> syncStatus org = Synced"
      unfolding row using synced_after_push [of item0 api s k0] by simp
    from synced_processItems [OF this] show ?thesis by simp
  qed
qed

text \<open>Rows with another key are not touched by an iteration.\<close>

lemma other_rows_processItem:
  "k' \<noteq> k \<Longrightarrow>
   filter (\<lambda>row. fst row = k) (sync_queue (db (processItem api (k', item) s))) =
   filter (\<lambda>row. fst row = k) (sync_queue (db s))"
proof -
  assume ne: "k' \<noteq> k"
  have m: "\<And>msg rows. filter (\<lambda>row. fst row = k)
        (map (\<lambda>row. if fst row = k' then (fst row, (snd row)\<lparr>error := Some msg\<rparr>) else row) rows)
      = filter (\<lambda>row. fst row = k) (rows :: (nat \<times> SyncQueueItem) list)"
    subgoal for msg rows using ne by (induction rows) auto
    done
  have f: "\<And>rows. filter (\<lambda>row. fst row \<noteq> k' \<and> fst row = k) rows
      = filter (\<lambda>row. fst row = k) (rows :: (nat \<times> SyncQueueItem) list)"
    subgoal for rows using ne by (induction rows) auto
    done
  show ?thesis
    by (simp add: sync_queue_processItem sync_queue_catchBlock m f
        split: option.splits ApiResult.splits)
qed

lemma other_rows_processItems:
  "k \<notin> fst ` set rows \<Longrightarrow>
   filter (\<lambda>row. fst row = k) (sync_queue (db (processItems api rows s))) =
   filter (\<lambda>row. fst row = k) (sync_queue (db s))"
proof (induction rows arbitrary: s)
  case Nil
  then show ?case by simp
next
  case (Cons row rows)
  obtain k0 item0 where row: "row = (k0, item0)" by (cases row)
  from Cons.prems have "k0 \<noteq> k" "k \<notin> fst ` set rows" by (auto simp: row)
  then show ?case
    by (simp add: Cons.IH row other_rows_processItem)
qed

lemma own_row:
  "distinct (map fst rows) \<Longrightarrow> (k, item) \<in> set rows \<Longrightarrow>
   filter (\<lambda>row. fst row = k) rows = [(k, item)]"
proof (induction rows)
  case Nil
  then show ?case by simp
next
  case (Cons row rows)
  show ?case
  proof (cases "row = (k, item)")
    case True
    with Cons.prems(1) have "k \<notin> fst ` set rows" by auto
    then have "filter (\<lambda>row. fst row = k) rows = []"
      by (auto simp: filter_empty_conv)
    with True show ?thesis by simp
  next
    case False
    with Cons.prems have in_rows: "(k, item) \<in> set rows" and d: "distinct (map fst rows)"
      by auto
    then have "k \<in> fst ` set rows" by force
    with Cons.prems(1) have "fst row \<noteq> k" by auto
    with Cons.IH [OF d in_rows] show ?thesis by simp
  qed
qed

lemma filter_map_own:
  "filter (\<lambda>row. fst row = k)
     (map (\<lambda>row. if fst row = k then (fst row, f (snd row)) else row) rows) =
   map (\<lambda>row. (fst row, f (snd row))) (filter (\<lambda>row. fst row = k) rows)"
  by (induction rows) auto

lemma own_row_catchBlock:
  "filter (\<lambda>row. fst row = k) (sync_queue (db (catchBlock k msg s))) =
     map (\<lambda>row. (fst row, (snd row)\<lparr>error := Some msg\<rparr>))
       (filter (\<lambda>row. fst row = k) (sync_queue (db s)))"
  by (simp add: sync_queue_catchBlock filter_map_own)

subsection \<open>The keys of the queue\<close>

text \<open>
  Every operation of the model keeps the keys of \<open>sync_queue\<close> distinct, so the
  theorems below that assume distinct keys apply to every state the operations
  produce from a well-keyed one (the empty table is).
\<close>

lemma wellKeyed_distinct: "wellKeyed d \<Longrightarrow> distinct (map fst (sync_queue d))"
  by (simp add: wellKeyed_def)

lemma wellKeyed_sync_queue_add:
  "wellKeyed d \<Longrightarrow> wellKeyed (snd (sync_queue_add item d))"
  by (force simp: wellKeyed_def sync_queue_add_def Let_def list_all_iff)

lemma map_fst_processItem:
  "map fst (sync_queue (db (processItem api (k, item) s))) =
     (if entityHandlers (entity item) \<noteq> None \<and> fst (api (remote s) (apiCall item)) = Resolved
      then filter (\<lambda>k'. k' \<noteq> k) (map fst (sync_queue (db s)))
      else map fst (sync_queue (db s)))"
  by (simp add: sync_queue_processItem filter_map comp_def
      split: option.splits ApiResult.splits)

lemma sync_queue_key_processItem:
  "sync_queue_key (db (processItem api row s)) = sync_queue_key (db s)"
  by (simp add: processItem_def Let_def handler_repo_update_def sync_queue_delete_def
      catchBlock_def sync_queue_update_error_def organizationRepository_update_def
      split: option.splits prod.splits ApiResult.splits Handler.splits)

lemma wellKeyed_processItem:
  "wellKeyed (db s) \<Longrightarrow> wellKeyed (db (processItem api row s))"
  by (cases row) (auto simp: wellKeyed_def map_fst_processItem sync_queue_key_processItem list_all_iff)

lemma wellKeyed_processItems:
  "wellKeyed (db s) \<Longrightarrow> wellKeyed (db (processItems api rows s))"
  by (induction rows arbitrary: s) (auto intro: wellKeyed_processItem)

lemma wellKeyed_processQueue:
  "wellKeyed (db s) \<Longrightarrow> wellKeyed (db (processQueue api s))"
  by (simp add: processQueue_def Let_def wellKeyed_processItems)

lemma wellKeyed_useAddOrganization:
  "wellKeyed (db s) \<Longrightarrow> wellKeyed (db (snd (useAddOrganization uuid now nm s)))"
  by (force simp: useAddOrganization_def useAddOrganization_mutationFn_def
      useAddOrganization_onSuccess_def organizationRepository_add_def Let_def
      wellKeyed_def sync_queue_add_def list_all_iff)

subsection \<open>Interleaved calls of \<^verbatim>\<open>processQueue\<close>\<close>

lemma reachable_single_cycle:
  "reachable api cfg \<Longrightarrow>
   length (snd cfg) \<le> 1 \<and> (isSyncing (fst cfg) = (snd cfg \<noteq> []))"
proof (induction rule: reachable.induct)
  case (start s)
  then show ?case by simp
next
  case (trigger s cs s' c)
  then show ?case
    by (auto simp: processQueue_enter_def pendingCalls_def split: if_splits)
next
  case (resume s cs1 c cs2 s' c')
  then have one: "cs1 = []" "cs2 = []" and running: "isSyncing s"
    by auto
  show ?case
  proof (cases c)
    case AwaitToArray
    with resume.hyps(2) show ?thesis
      using running by (auto simp: one pendingCalls_def Let_def split: if_splits)
  next
    case (InLoop rows)
    with resume.hyps(2) show ?thesis
      using running by (cases rows) (auto simp: one pendingCalls_def)
  qed
next
  case (environment s cs d b r)
  then show ?case by simp
qed

lemma reachable_loop:
  "reachable api (s, [InLoop rows]) \<Longrightarrow>
   reachable api ((processItems api rows s)\<lparr>isSyncing := False\<rparr>, [])"
proof (induction rows arbitrary: s)
  case Nil
  from reachable.resume [of api s "[]" "InLoop []" "[]", simplified, OF Nil]
  show ?case by (simp add: pendingCalls_def)
next
  case (Cons row rows)
  from reachable.resume [of api s "[]" "InLoop (row # rows)" "[]", simplified, OF Cons.prems]
  have "reachable api (processItem api row s, [InLoop rows])"
    by (simp add: pendingCalls_def)
  from Cons.IH [OF this] show ?case by simp
qed

text \<open>An uninterrupted run of the steps of one call is the function \<open>processQueue\<close>.\<close>

lemma reachable_processQueue:
  assumes "reachable api (s, [])"
  shows "reachable api (processQueue api s, [])"
proof (cases "isSyncing s \<or> \<not> onLine s")
  case True
  then show ?thesis using assms by (simp add: processQueue_def)
next
  case False
  let ?s1 = "s\<lparr>isSyncing := True\<rparr>"
  have "processQueue_enter s = (?s1, Some AwaitToArray)"
    using False by (simp add: processQueue_enter_def)
  from reachable.trigger [OF assms this]
  have entered: "reachable api (?s1, [AwaitToArray])"
    by (simp add: pendingCalls_def)
  show ?thesis
  proof (cases "sync_queue (db s) = []")
    case True
    from reachable.resume [of api ?s1 "[]" AwaitToArray "[]", simplified, OF entered]
    show ?thesis
      using True False
      by (simp add: processQueue_def sync_queue_toArray_def pendingCalls_def)
  next
    case nonempty: False
    from reachable.resume [of api ?s1 "[]" AwaitToArray "[]", simplified, OF entered]
    have "reachable api (?s1, [InLoop (sync_queue (db s))])"
      using nonempty by (simp add: sync_queue_toArray_def pendingCalls_def)
    from reachable_loop [OF this] show ?thesis
      using False by (simp add: processQueue_cycle)
  qed
qed

subsection \<open>A rejected call\<close>

text \<open>
  What the \<^verbatim>\<open>catch\<close> block does in general: when the call for an item is rejected,
  its row stays in the queue with the message in \<^verbatim>\<open>error\<close>, the other rows and all
  \<^verbatim>\<open>retries\<close> fields are unchanged, no entity of the Local Store changes, and every
  later cycle that finds the queue as it was left sends the item again.
\<close>

lemma failed_push_keeps_item:
  fixes s :: "'r State"
  assumes "entityHandlers (entity item) = Some h"
    and "api (remote s) (apiCall item) = (Rejected msg, r)"
  shows "sync_queue (db (processItem api (k, item) s)) =
           map (\<lambda>row. if fst row = k then (fst row, (snd row)\<lparr>error := Some msg\<rparr>) else row)
             (sync_queue (db s)) \<and>
         map (\<lambda>row. (fst row, retries (snd row))) (sync_queue (db (processItem api (k, item) s))) =
           map (\<lambda>row. (fst row, retries (snd row))) (sync_queue (db s)) \<and>
         organizations (db (processItem api (k, item) s)) = organizations (db s) \<and>
         (\<forall>(api' :: 'r Api) t. \<not> isSyncing t \<and> onLine t \<and>
             sync_queue (db t) = sync_queue (db (processItem api (k, item) s)) \<and>
             (k, item) \<in> set (sync_queue (db s)) \<longrightarrow>
             (k, apiCall item) \<in> set (map (\<lambda>e. (fst e, fst (snd e)))
                (drop (length (network t)) (network (processQueue api' t)))))"
proof (intro conjI allI impI)
  let ?mark = "\<lambda>row :: nat \<times> SyncQueueItem.
      if fst row = k then (fst row, (snd row)\<lparr>error := Some msg\<rparr>) else row"
  show q: "sync_queue (db (processItem api (k, item) s)) = map ?mark (sync_queue (db s))"
    using assms by (simp add: sync_queue_processItem sync_queue_catchBlock)
  have r: "map (\<lambda>row. (fst row, retries (snd row))) (map ?mark rows) =
      map (\<lambda>row. (fst row, retries (snd row))) rows" for rows
    by (induction rows) auto
  show "map (\<lambda>row. (fst row, retries (snd row))) (sync_queue (db (processItem api (k, item) s))) =
      map (\<lambda>row. (fst row, retries (snd row))) (sync_queue (db s))"
    unfolding q by (rule r)
  show "organizations (db (processItem api (k, item) s)) = organizations (db s)"
    using assms by (simp add: organizations_processItem)
  fix api' :: "'r Api" and t :: "'r State"
  assume t: "\<not> isSyncing t \<and> onLine t \<and>
             sync_queue (db t) = sync_queue (db (processItem api (k, item) s)) \<and>
             (k, item) \<in> set (sync_queue (db s))"
  then have t1: "\<not> isSyncing t" and t2: "onLine t" by simp_all
  have "(k, item\<lparr>error := Some msg\<rparr>) \<in> ?mark ` set (sync_queue (db s))"
    by (rule image_eqI [where x = "(k, item)"]) (simp_all add: t)
  then have "(k, item\<lparr>error := Some msg\<rparr>) \<in> set (sync_queue (db t))"
    using t q by simp
  moreover have "entityHandlers (entity (item\<lparr>error := Some msg\<rparr>)) \<noteq> None"
    using assms(1) by simp
  ultimately have "(k, apiCall (item\<lparr>error := Some msg\<rparr>)) \<in>
      set (map (\<lambda>e. (fst e, fst (snd e)))
        (cycleCalls api' (sync_queue (db t)) (t\<lparr>isSyncing := True\<rparr>)))"
    by (rule cycleCalls_registered)
  then show "(k, apiCall item) \<in> set (map (\<lambda>e. (fst e, fst (snd e)))
                (drop (length (network t)) (network (processQueue api' t))))"
    by (simp add: processQueue_cycle [OF t1 t2] network_processItems)
qed

lemma failed_push_keeps_item_example:
  "entityHandlers (entity createAcme) = Some OrganizationHandler \<and>
   serverDown (remote (idle acmeDb)) (apiCall createAcme) = (Rejected ''503'', 1) \<and>
   sync_queue (db (processItem serverDown (1, createAcme) (idle acmeDb))) =
     [(1, createAcme\<lparr>error := Some ''503''\<rparr>)] \<and>
   organizations (db (processItem serverDown (1, createAcme) (idle acmeDb))) = [acme] \<and>
   (1, apiCall createAcme) \<in> set (map (\<lambda>e. (fst e, fst (snd e)))
      (drop (length (network (failedOnce 1))) (network (processQueue serverUp (failedOnce 1)))))"
proof -
  have a: "entityHandlers (entity createAcme) = Some OrganizationHandler"
    by (simp add: createAcme_def entityHandlers_def)
  have b: "serverDown (remote (idle acmeDb)) (apiCall createAcme) = (Rejected ''503'', 1)"
    by (simp add: serverDown_def idle_def)
  have c: "\<not> isSyncing (failedOnce 1) \<and> onLine (failedOnce 1) \<and>
      sync_queue (db (failedOnce 1)) =
        sync_queue (db (processItem serverDown (1, createAcme) (idle acmeDb))) \<and>
      (1, createAcme) \<in> set (sync_queue (db (idle acmeDb)))"
    by (simp add: run_defs failedOnce_def idle_def acmeDb_def serverDown_def createAcme_def)
  have d: "sync_queue (db (idle acmeDb)) = [(1, createAcme)]"
    "organizations (db (idle acmeDb)) = [acme]"
    by (simp_all add: idle_def acmeDb_def)
  from a b failed_push_keeps_item [where item = createAcme and h = OrganizationHandler
      and api = serverDown and s = "idle acmeDb" and msg = "''503''" and r = 1 and k = 1]
  have "sync_queue (db (processItem serverDown (1, createAcme) (idle acmeDb))) =
          [(1, createAcme\<lparr>error := Some ''503''\<rparr>)]"
    and "organizations (db (processItem serverDown (1, createAcme) (idle acmeDb))) = [acme]"
    and "\<forall>(api' :: nat Api) t. \<not> isSyncing t \<and> onLine t \<and>
             sync_queue (db t) = sync_queue (db (processItem serverDown (1, createAcme) (idle acmeDb))) \<and>
             (1, createAcme) \<in> set (sync_queue (db (idle acmeDb))) \<longrightarrow>
             (1, apiCall createAcme) \<in> set (map (\<lambda>e. (fst e, fst (snd e)))
                (drop (length (network t)) (network (processQueue api' t))))"
    by (simp_all add: d)
  with a b c show ?thesis by blast
qed

section \<open>The claims\<close>

text \<open>
  C1, as claimed: an entity with a queue item outstanding is never \<open>Synced\<close>, and a
  successful push sets \<open>Synced\<close> only if no newer item exists for the entity. The code
  has no such check. With \<^verbatim>\<open>create\<close> and \<^verbatim>\<open>update\<close> queued for \<open>o1\<close> and a server that
  rejects updates, one cycle leaves \<open>o1\<close> \<open>Synced\<close> with the \<^verbatim>\<open>update\<close> still queued;
  and already the push of the \<^verbatim>\<open>create\<close> alone sets \<open>Synced\<close> while the newer
  \<^verbatim>\<open>update\<close> is in the queue.
\<close>

theorem synced_with_outstanding_item_counterexample:
  "map (\<lambda>org. (id' org, syncStatus org))
     (organizations (db (processQueue rejectUpdates (idle twoItemsDb)))) = [(''o1'', Synced)] \<and>
   map (\<lambda>row. (fst row, action (snd row), id' (payload (snd row))))
     (sync_queue (db (processQueue rejectUpdates (idle twoItemsDb)))) = [(2, Update, ''o1'')] \<and>
   map (\<lambda>org. (id' org, syncStatus org))
     (organizations (db (processItem serverUp (1, createAcme) (idle twoItemsDb)))) =
     [(''o1'', Synced)] \<and>
   sync_queue (db (processItem serverUp (1, createAcme) (idle twoItemsDb))) = [(2, updateAcme)]"
  by (simp add: run_defs twoItemsDb_def idle_def rejectUpdates_def serverUp_def acme_def
      createAcme_def updateAcme_def)

text \<open>
  C1, as the code has it: a successful push of a \<^verbatim>\<open>create\<close> or \<^verbatim>\<open>update\<close> item sets
  the status of every stored entity with the payload's id to \<open>Synced\<close>, whatever else is
  in the queue, leaves the other entities as they are, and removes from the queue the
  pushed row only.
\<close>

theorem successful_push_marks_synced:
  assumes "entityHandlers (entity item) = Some h"
    and "api (remote s) (apiCall item) = (Resolved, r)"
    and "action item \<noteq> Delete"
  shows "organizations (db (processItem api (k, item) s)) =
           map (\<lambda>org. if id' org = id' (payload item) then org\<lparr>syncStatus := Synced\<rparr> else org)
             (organizations (db s)) \<and>
         sync_queue (db (processItem api (k, item) s)) =
           filter (\<lambda>row. fst row \<noteq> k) (sync_queue (db s))"
  using assms by (simp add: organizations_processItem sync_queue_processItem)

theorem successful_push_marks_synced_witness:
  "entityHandlers (entity createAcme) = Some OrganizationHandler \<and>
   serverUp (remote (idle twoItemsDb)) (apiCall createAcme) = (Resolved, 1) \<and>
   action createAcme \<noteq> Delete \<and>
   organizations (db (processItem serverUp (1, createAcme) (idle twoItemsDb))) =
     [acme\<lparr>syncStatus := Synced\<rparr>] \<and>
   sync_queue (db (processItem serverUp (1, createAcme) (idle twoItemsDb))) = [(2, updateAcme)]"
proof -
  have a: "entityHandlers (entity createAcme) = Some OrganizationHandler"
    by (simp add: createAcme_def entityHandlers_def)
  have b: "serverUp (remote (idle twoItemsDb)) (apiCall createAcme) = (Resolved, 1)"
    by (simp add: serverUp_def idle_def)
  have c: "action createAcme \<noteq> Delete"
    by (simp add: createAcme_def)
  have d: "id' (payload createAcme) = id' acme"
    by (simp add: createAcme_def)
  show ?thesis
    using a b c
      successful_push_marks_synced [where item = createAcme and h = OrganizationHandler
        and api = serverUp and s = "idle twoItemsDb" and r = 1 and k = 1]
    by (simp add: idle_def twoItemsDb_def d)
qed

text \<open>
  C2, as claimed: the \<^verbatim>\<open>update\<close> of an entity is never sent before its \<^verbatim>\<open>create\<close> has
  succeeded remotely. The loop goes on after a failure. With \<^verbatim>\<open>create\<close> and
  \<^verbatim>\<open>update\<close> queued for \<open>o1\<close> and a server that rejects its first call only, the first
  cycle sends the \<^verbatim>\<open>create\<close> (rejected) and then the \<^verbatim>\<open>update\<close> (accepted); the
  \<^verbatim>\<open>create\<close> is accepted in the second cycle, after the \<^verbatim>\<open>update\<close>.
\<close>

theorem update_pushed_after_failed_create_counterexample:
  "network (processQueue flaky (processQueue flaky (idle twoItemsDb))) =
     [(1, ApiCreate acme, Rejected ''503''),
      (2, ApiUpdate ''o1'' acme, Resolved),
      (1, ApiCreate acme, Resolved)]"
  by (simp add: processQueue_def processItem_def Let_def sync_queue_toArray_def
      entityHandlers_def apiCall_def handler_repo_update_def organizationRepository_update_def
      applyChanges_def catchBlock_def sync_queue_update_error_def sync_queue_delete_def
      twoItemsDb_def idle_def flaky_def acme_def createAcme_def updateAcme_def)

text \<open>
  C2, as the code has it: the calls of one cycle are appended to those made before;
  they are exactly one call per row of the snapshot whose entity has a handler, in
  the order of the queue, whatever the outcome of the earlier calls; and the queue
  lists its rows in the order they were enqueued.
\<close>

theorem calls_in_queue_order:
  assumes "\<not> isSyncing s" and "onLine s"
  shows "take (length (network s)) (network (processQueue api s)) = network s \<and>
         map (\<lambda>e. (fst e, fst (snd e)))
           (drop (length (network s)) (network (processQueue api s))) =
         map (\<lambda>row. (fst row, apiCall (snd row)))
           (filter (\<lambda>row. entityHandlers (entity (snd row)) \<noteq> None) (sync_queue_toArray (db s))) \<and>
         sync_queue_toArray (snd (sync_queue_add item d)) =
           sync_queue_toArray d @ [(fst (sync_queue_add item d), item)]"
  using assms
  by (simp add: processQueue_cycle network_processItems cycleCalls_order
      sync_queue_toArray_def sync_queue_add_def Let_def)

theorem calls_in_queue_order_witness:
  "\<not> isSyncing (idle twoItemsDb) \<and> onLine (idle twoItemsDb) \<and>
   map (\<lambda>e. (fst e, fst (snd e)))
     (drop (length (network (idle twoItemsDb))) (network (processQueue flaky (idle twoItemsDb)))) =
   [(1, ApiCreate acme), (2, ApiUpdate ''o1'' acme)]"
proof -
  have a: "\<not> isSyncing (idle twoItemsDb)" and b: "onLine (idle twoItemsDb)"
    by (simp_all add: idle_def)
  show ?thesis
    using a b calls_in_queue_order [OF a b, of flaky createAcme twoItemsDb]
    by (simp add: idle_def twoItemsDb_def sync_queue_toArray_def entityHandlers_def
        createAcme_def updateAcme_def apiCall_def acme_def)
qed

text \<open>
  C3, as claimed: every mutating repository call writes the Local Store once and
  enqueues once, atomically. The repository's \<^verbatim>\<open>update\<close> and \<^verbatim>\<open>delete\<close> change the
  store and enqueue nothing, and the hook's \<^verbatim>\<open>mutationFn\<close> has written the store
  before \<^verbatim>\<open>onSuccess\<close> enqueues.
\<close>

theorem write_without_enqueue_counterexample:
  "organizations (snd (organizationRepository_update ''o1'' rename acmeDb)) \<noteq>
     organizations acmeDb \<and>
   sync_queue (snd (organizationRepository_update ''o1'' rename acmeDb)) = sync_queue acmeDb \<and>
   organizations (snd (organizationRepository_delete ''o1'' acmeDb)) \<noteq> organizations acmeDb \<and>
   sync_queue (snd (organizationRepository_delete ''o1'' acmeDb)) = sync_queue acmeDb \<and>
   organizations (db (snd (useAddOrganization_mutationFn ''o2'' ''t1'' ''Beta'' (idle acmeDb)))) \<noteq>
     organizations acmeDb \<and>
   sync_queue (db (snd (useAddOrganization_mutationFn ''o2'' ''t1'' ''Beta'' (idle acmeDb)))) =
     sync_queue acmeDb"
  by (simp add: organizationRepository_update_def organizationRepository_delete_def
      useAddOrganization_mutationFn_def organizationRepository_add_def applyChanges_def
      acmeDb_def acme_def rename_def idle_def Let_def)

text \<open>
  C3, as the code has it: the hook \<^verbatim>\<open>useAddOrganization\<close> either rejects with a
  ConstraintError and changes nothing (the id is taken), or appends the new entity to
  the store and then one \<^verbatim>\<open>create\<close> row carrying that entity to the queue, under the
  next key; the repository's \<^verbatim>\<open>update\<close> and \<^verbatim>\<open>delete\<close> never change the queue.
\<close>

theorem hook_writes_then_enqueues:
  "useAddOrganization uuid now nm s =
     (if uuid \<in> set (map id' (organizations (db s))) then (Inl ConstraintError, s)
      else (Inr \<lparr>id' = uuid, syncStatus = Pending, lastModified = now, name = nm\<rparr>,
            s\<lparr>db := (db s)
              \<lparr>organizations := organizations (db s) @
                 [\<lparr>id' = uuid, syncStatus = Pending, lastModified = now, name = nm\<rparr>],
               sync_queue := sync_queue (db s) @
                 [(Suc (sync_queue_key (db s)),
                   \<lparr>entity = OrganizationEntity, action = Create,
                    payload = \<lparr>id' = uuid, syncStatus = Pending, lastModified = now, name = nm\<rparr>,
                    retries = None, error = None\<rparr>)],
               sync_queue_key := Suc (sync_queue_key (db s))\<rparr>\<rparr>)) \<and>
   sync_queue (snd (organizationRepository_update i c d)) = sync_queue d \<and>
   sync_queue (snd (organizationRepository_delete i d)) = sync_queue d"
  by (simp add: useAddOrganization_def useAddOrganization_mutationFn_def
      useAddOrganization_onSuccess_def organizationRepository_add_def sync_queue_add_def
      organizationRepository_update_def organizationRepository_delete_def Let_def)

theorem hook_writes_then_enqueues_witness:
  "db (snd (useAddOrganization ''o2'' ''t1'' ''Beta'' (idle acmeDb))) =
     \<lparr>organizations =
        [acme, \<lparr>id' = ''o2'', syncStatus = Pending, lastModified = ''t1'', name = ''Beta''\<rparr>],
      sync_queue =
        [(1, createAcme),
         (2, \<lparr>entity = OrganizationEntity, action = Create,
              payload = \<lparr>id' = ''o2'', syncStatus = Pending, lastModified = ''t1'', name = ''Beta''\<rparr>,
              retries = None, error = None\<rparr>)],
      sync_queue_key = 2\<rparr> \<and>
   useAddOrganization ''o1'' ''t1'' ''Beta'' (idle acmeDb) = (Inl ConstraintError, idle acmeDb)"
  using hook_writes_then_enqueues [of "''o2''" "''t1''" "''Beta''" "idle acmeDb"]
    hook_writes_then_enqueues [of "''o1''" "''t1''" "''Beta''" "idle acmeDb"]
  by (simp add: idle_def acmeDb_def acme_def)

text \<open>
  C4. The claim: a failed push leaves the item in the queue with its retry counter
  incremented (1 after the first failure) and the error recorded; beyond a ceiling
  the entity becomes \<open>Error\<close> and the item is no longer sent automatically. The
  \<^verbatim>\<open>catch\<close> block, under its comment \<^verbatim>\<open>Implement retry logic or mark as error\<close>, only
  stores the message. With the \<^verbatim>\<open>create\<close> of \<open>o1\<close> queued and the server down, the row
  has the error but no \<^verbatim>\<open>retries\<close> after the first failure; after three cycles the
  entity is still \<open>Pending\<close> and the item has been sent three times.
\<close>

theorem failed_push_counts_no_retry:
  "map (\<lambda>row. (fst row, retries (snd row), error (snd row)))
     (sync_queue (db (processQueue serverDown (idle acmeDb)))) = [(1, None, Some ''503'')] \<and>
   map syncStatus (organizations (db
     (processQueue serverDown (processQueue serverDown (processQueue serverDown (idle acmeDb))))))
     = [Pending] \<and>
   map fst (network
     (processQueue serverDown (processQueue serverDown (processQueue serverDown (idle acmeDb)))))
     = [1, 1, 1]"
proof -
  have first: "processQueue serverDown (idle acmeDb) = failedOnce 1"
    by (simp add: run_defs acmeDb_def idle_def serverDown_def acme_def createAcme_def
        failedOnce_def)
  have again: "processQueue serverDown (failedOnce n) = failedOnce (Suc n)" for n
    by (simp add: run_defs serverDown_def acme_def createAcme_def failedOnce_def
        replicate_append_same)
  have third: "processQueue serverDown (processQueue serverDown (processQueue serverDown (idle acmeDb)))
      = failedOnce (Suc (Suc 1))"
    by (simp only: first again)
  show ?thesis
    unfolding third unfolding first
    by (simp add: failedOnce_def createAcme_def acme_def)
qed

text \<open>
  C5. In a cycle that runs (online, none running) over a queue with distinct keys, a
  row of the queue is gone at the end exactly when the call made for it in this cycle
  was accepted; and then, for a \<^verbatim>\<open>create\<close> or \<^verbatim>\<open>update\<close>, every stored entity with the
  payload's id is \<open>Synced\<close> at the end.
\<close>

theorem removed_iff_pushed:
  assumes "\<not> isSyncing s" and "onLine s"
    and "distinct (map fst (sync_queue (db s)))"
    and "(k, item) \<in> set (sync_queue (db s))"
  shows "(k \<notin> fst ` set (sync_queue (db (processQueue api s)))) =
           ((k, apiCall item, Resolved) \<in>
              set (drop (length (network s)) (network (processQueue api s)))) \<and>
         ((k, apiCall item, Resolved) \<in>
              set (drop (length (network s)) (network (processQueue api s))) \<and>
          action item \<noteq> Delete \<longrightarrow>
          (\<forall>org \<in> set (organizations (db (processQueue api s))).
              id' org = id' (payload item) \<longrightarrow> syncStatus org = Synced))"
proof -
  let ?s1 = "s\<lparr>isSyncing := True\<rparr>"
  let ?rows = "sync_queue (db s)"
  let ?L = "cycleCalls api ?rows ?s1"
  have pq: "processQueue api s = (processItems api ?rows ?s1)\<lparr>isSyncing := False\<rparr>"
    using assms(1,2) by (rule processQueue_cycle)
  have log: "drop (length (network s)) (network (processQueue api s)) = ?L"
    by (simp add: pq network_processItems)
  have keys: "fst ` set (sync_queue (db (processQueue api s))) =
      fst ` set ?rows - {k. \<exists>c. (k, c, Resolved) \<in> set ?L}"
    using keys_processItems [of api ?rows ?s1] by (simp add: pq)
  have inq: "k \<in> fst ` set ?rows" using assms(4) by force
  have call: "c = apiCall item" if "(k, c, res) \<in> set ?L" for c res
  proof -
    from cycleCalls_row [OF that] obtain item' where
      i': "(k, item') \<in> set ?rows" and c: "c = apiCall item'" by blast
    have "[(k, item')] = [(k, item)]"
      using own_row [OF assms(3) i'] own_row [OF assms(3) assms(4)] by simp
    with c show ?thesis by simp
  qed
  have first: "(k \<notin> fst ` set (sync_queue (db (processQueue api s)))) =
      ((k, apiCall item, Resolved) \<in> set ?L)"
    using keys inq call by auto
  have second: "\<forall>org \<in> set (organizations (db (processQueue api s))).
      id' org = id' (payload item) \<longrightarrow> syncStatus org = Synced"
    if "(k, apiCall item, Resolved) \<in> set ?L" and "action item \<noteq> Delete"
    using synced_after_cycle [OF assms(3) assms(4) that(2) that(1)] by (simp add: pq)
  show ?thesis
    unfolding log using first second by blast
qed

theorem removed_iff_pushed_witness:
  "\<not> isSyncing (idle twoItemsDb) \<and> onLine (idle twoItemsDb) \<and>
   distinct (map fst (sync_queue (db (idle twoItemsDb)))) \<and>
   (1, createAcme) \<in> set (sync_queue (db (idle twoItemsDb))) \<and>
   1 \<notin> fst ` set (sync_queue (db (processQueue rejectUpdates (idle twoItemsDb)))) \<and>
   (1, apiCall createAcme, Resolved) \<in>
     set (drop (length (network (idle twoItemsDb)))
            (network (processQueue rejectUpdates (idle twoItemsDb)))) \<and>
   map syncStatus (organizations (db (processQueue rejectUpdates (idle twoItemsDb)))) = [Synced]"
proof -
  have a: "\<not> isSyncing (idle twoItemsDb)" and b: "onLine (idle twoItemsDb)"
    and c: "distinct (map fst (sync_queue (db (idle twoItemsDb))))"
    and d: "(1, createAcme) \<in> set (sync_queue (db (idle twoItemsDb)))"
    by (simp_all add: idle_def twoItemsDb_def)
  have e: "processQueue rejectUpdates (idle twoItemsDb) =
      \<lparr>db = \<lparr>organizations = [acme\<lparr>syncStatus := Synced\<rparr>],
              sync_queue = [(2, updateAcme\<lparr>error := Some ''503''\<rparr>)], sync_queue_key = 2\<rparr>,
       isSyncing = False, onLine = True, remote = 2,
       network = [(1, ApiCreate acme, Resolved), (2, ApiUpdate ''o1'' acme, Rejected ''503'')]\<rparr>"
    by (simp add: processQueue_def processItem_def Let_def sync_queue_toArray_def
      entityHandlers_def apiCall_def handler_repo_update_def organizationRepository_update_def
      applyChanges_def catchBlock_def sync_queue_update_error_def sync_queue_delete_def
      twoItemsDb_def idle_def rejectUpdates_def acme_def createAcme_def updateAcme_def)
  show ?thesis
    using a b c d removed_iff_pushed [OF a b c d, of rejectUpdates]
    by (simp add: e)
qed

text \<open>
  C6. The claim: \<^verbatim>\<open>update(id, changes)\<close> and \<^verbatim>\<open>delete(id)\<close> of the repository fail with
  NotFound for an unknown id, leaving the Local Store and the Sync Queue unchanged.
  The repository has no such failure: both calls fulfil. At the database with the one
  organization \<open>o1\<close>, updating and deleting \<open>o2\<close> do not reject.
\<close>

theorem unknown_id_not_found_counterexample:
  "\<not> isl (fst (organizationRepository_update ''o2'' rename acmeDb)) \<and>
   \<not> isl (fst (organizationRepository_delete ''o2'' acmeDb))"
  by (simp add: organizationRepository_update_def organizationRepository_delete_def)


text \<open>
  C6, as the code has it: for an id that is not in the Local Store, \<^verbatim>\<open>update\<close> fulfils
  with 0 (no row updated) and \<^verbatim>\<open>delete\<close> fulfils, and both leave the whole database
  (the Local Store, the Sync Queue and its key generator) unchanged.
\<close>

theorem unknown_id_is_no_failure:
  assumes "i \<notin> set (map id' (organizations d))"
  shows "organizationRepository_update i c d = (Inr 0, d) \<and>
         organizationRepository_delete i d = (Inr (), d)"
proof -
  have "\<not> (\<exists>org \<in> set (organizations d). id' org = i \<and> applyChanges c org \<noteq> org)"
    using assms by auto
  then show ?thesis
    using assms
    by (simp add: organizationRepository_update_def organizationRepository_delete_def
        map_if_unknown filter_unknown)
qed


theorem unknown_id_is_no_failure_witness:
  "''o2'' \<notin> set (map id' (organizations acmeDb)) \<and>
   organizationRepository_update ''o2'' rename acmeDb = (Inr 0, acmeDb) \<and>
   organizationRepository_delete ''o2'' acmeDb = (Inr (), acmeDb)"
proof -
  have h: "''o2'' \<notin> set (map id' (organizations acmeDb))"
    by (simp add: acmeDb_def acme_def)
  show ?thesis using h unknown_id_is_no_failure [OF h] by simp
qed


text \<open>
  C7. In every configuration the application can reach, whatever the interleaving of
  triggers, resumed calls and other activity, at most one call of \<^verbatim>\<open>processQueue\<close> is
  past its guard, and the flag \<^verbatim>\<open>isSyncing\<close> is set exactly when there is one. A call
  entered while one is running, or while offline, returns at the guard: the state
  (database, server, network log) is unchanged and nothing is left suspended.
\<close>

theorem single_drain_cycle:
  assumes "reachable api (s, cs)"
  shows "length cs \<le> 1 \<and> (isSyncing s = (cs \<noteq> [])) \<and>
         (cs \<noteq> [] \<or> isSyncing s \<or> \<not> onLine s \<longrightarrow>
            processQueue_enter s = (s, None) \<and> processQueue api s = s)"
  using reachable_single_cycle [OF assms]
  by (auto simp: processQueue_enter_def processQueue_def)

theorem single_drain_cycle_witness:
  "reachable flaky ((idle twoItemsDb)\<lparr>isSyncing := True\<rparr>, [AwaitToArray]) \<and>
   length [AwaitToArray] \<le> 1 \<and>
   processQueue_enter ((idle twoItemsDb)\<lparr>isSyncing := True\<rparr>) =
     ((idle twoItemsDb)\<lparr>isSyncing := True\<rparr>, None) \<and>
   processQueue flaky ((idle twoItemsDb)\<lparr>isSyncing := True\<rparr>) =
     (idle twoItemsDb)\<lparr>isSyncing := True\<rparr>"
proof -
  have "reachable flaky (idle twoItemsDb, [])"
    by (rule reachable.start) (simp add: idle_def)
  moreover have "processQueue_enter (idle twoItemsDb) =
      ((idle twoItemsDb)\<lparr>isSyncing := True\<rparr>, Some AwaitToArray)"
    by (simp add: processQueue_enter_def idle_def)
  ultimately have "reachable flaky ((idle twoItemsDb)\<lparr>isSyncing := True\<rparr>, [] @ pendingCalls (Some AwaitToArray))"
    by (rule reachable.trigger)
  then have r: "reachable flaky ((idle twoItemsDb)\<lparr>isSyncing := True\<rparr>, [AwaitToArray])"
    by (simp add: pendingCalls_def)
  show ?thesis
    using r single_drain_cycle [OF r] by simp
qed

text \<open>
  C8. Adding an organization and reading the new id back: when the generated id is
  not yet a key of the Local Store, the hook fulfils with the entity made of the given
  name, the generated id, status \<open>Pending\<close> and the current time as \<^verbatim>\<open>lastModified\<close>;
  the rows with that id read through \<^verbatim>\<open>getAll\<close> are exactly that entity, after
  \<^verbatim>\<open>mutationFn\<close> alone as well as after the whole hook; and the hook makes no network
  call and does not touch the server.
\<close>

theorem create_then_read:
  assumes "uuid \<notin> set (map id' (organizationRepository_getAll (db s)))"
  shows "fst (useAddOrganization uuid now nm s) =
           Inr \<lparr>id' = uuid, syncStatus = Pending, lastModified = now, name = nm\<rparr> \<and>
         filter (\<lambda>org. id' org = uuid)
           (organizationRepository_getAll (db (snd (useAddOrganization uuid now nm s)))) =
           [\<lparr>id' = uuid, syncStatus = Pending, lastModified = now, name = nm\<rparr>] \<and>
         filter (\<lambda>org. id' org = uuid)
           (organizationRepository_getAll (db (snd (useAddOrganization_mutationFn uuid now nm s)))) =
           [\<lparr>id' = uuid, syncStatus = Pending, lastModified = now, name = nm\<rparr>] \<and>
         network (snd (useAddOrganization uuid now nm s)) = network s \<and>
         remote (snd (useAddOrganization uuid now nm s)) = remote s"
proof -
  have "filter (\<lambda>org. id' org = uuid) (organizations (db s)) = []"
    using assms by (auto simp: organizationRepository_getAll_def filter_empty_conv)
  then show ?thesis
    using assms
    by (simp add: useAddOrganization_def useAddOrganization_mutationFn_def
        useAddOrganization_onSuccess_def organizationRepository_add_def
        organizationRepository_getAll_def sync_queue_add_def Let_def)
qed

theorem create_then_read_witness:
  "''o2'' \<notin> set (map id' (organizationRepository_getAll (db (idle acmeDb)))) \<and>
   fst (useAddOrganization ''o2'' ''t1'' ''Beta'' (idle acmeDb)) =
     Inr \<lparr>id' = ''o2'', syncStatus = Pending, lastModified = ''t1'', name = ''Beta''\<rparr> \<and>
   filter (\<lambda>org. id' org = ''o2'')
     (organizationRepository_getAll (db (snd (useAddOrganization ''o2'' ''t1'' ''Beta'' (idle acmeDb))))) =
     [\<lparr>id' = ''o2'', syncStatus = Pending, lastModified = ''t1'', name = ''Beta''\<rparr>] \<and>
   network (snd (useAddOrganization ''o2'' ''t1'' ''Beta'' (idle acmeDb))) = []"
proof -
  have h: "''o2'' \<notin> set (map id' (organizationRepository_getAll (db (idle acmeDb))))"
    by (simp add: organizationRepository_getAll_def idle_def acmeDb_def acme_def)
  show ?thesis
    using h create_then_read [OF h, of "''t1''" "''Beta''"]
    by (simp add: idle_def)
qed

text \<open>
  C9. A row whose entity has no handler (any entity but \<^verbatim>\<open>organization\<close>) does not end
  the cycle: the loop handles the rows before it, stores the TypeError's message in
  the row's \<^verbatim>\<open>error\<close> field, goes on with the rows after it, and the flag is reset.
  At the end the row is still in the queue, with that message and otherwise as it was.
\<close>

theorem unregistered_entity_does_not_abort:
  assumes "entity item \<noteq> OrganizationEntity"
    and "\<not> isSyncing s" and "onLine s"
    and "sync_queue (db s) = before @ (k, item) # after"
    and "distinct (map fst (sync_queue (db s)))"
  shows "processQueue api s =
           (processItems api after
              (catchBlock k undefinedHandlerMessage
                 (processItems api before (s\<lparr>isSyncing := True\<rparr>))))\<lparr>isSyncing := False\<rparr> \<and>
         filter (\<lambda>row. fst row = k) (sync_queue (db (processQueue api s))) =
           [(k, item\<lparr>error := Some undefinedHandlerMessage\<rparr>)] \<and>
         \<not> isSyncing (processQueue api s)"
proof -
  let ?s1 = "s\<lparr>isSyncing := True\<rparr>"
  let ?s2 = "processItems api before ?s1"
  let ?s3 = "catchBlock k undefinedHandlerMessage ?s2"
  have none: "entityHandlers (entity item) = None"
    using assms(1) by (cases "entity item") (simp_all add: entityHandlers_def)
  have pq: "processQueue api s =
      (processItems api (before @ (k, item) # after) ?s1)\<lparr>isSyncing := False\<rparr>"
    using processQueue_cycle [OF assms(2,3), of api] by (simp add: assms(4))
  have step: "processItems api (before @ (k, item) # after) ?s1 = processItems api after ?s3"
    by (simp add: processItems_append processItem_unregistered [OF none])
  have kb: "k \<notin> fst ` set before" and ka: "k \<notin> fst ` set after"
    using assms(5) unfolding assms(4) by auto
  have "filter (\<lambda>row. fst row = k) (sync_queue (db ?s1)) = [(k, item)]"
    using own_row [OF assms(5), of k item] by (simp add: assms(4))
  then have "filter (\<lambda>row. fst row = k) (sync_queue (db ?s2)) = [(k, item)]"
    by (simp add: other_rows_processItems [OF kb])
  then have "filter (\<lambda>row. fst row = k) (sync_queue (db ?s3)) =
      [(k, item\<lparr>error := Some undefinedHandlerMessage\<rparr>)]"
    by (simp add: own_row_catchBlock)
  then have row: "filter (\<lambda>row. fst row = k) (sync_queue (db (processItems api after ?s3))) =
      [(k, item\<lparr>error := Some undefinedHandlerMessage\<rparr>)]"
    by (simp add: other_rows_processItems [OF ka])
  show ?thesis
    using row by (simp add: pq step)
qed

theorem unregistered_entity_does_not_abort_witness:
  "entity createAssessment \<noteq> OrganizationEntity \<and>
   \<not> isSyncing (idle mixedDb) \<and> onLine (idle mixedDb) \<and>
   sync_queue (db (idle mixedDb)) = [] @ (1, createAssessment) # [(2, createAcme)] \<and>
   distinct (map fst (sync_queue (db (idle mixedDb)))) \<and>
   sync_queue (db (processQueue serverUp (idle mixedDb))) =
     [(1, createAssessment\<lparr>error := Some undefinedHandlerMessage\<rparr>)] \<and>
   network (processQueue serverUp (idle mixedDb)) = [(2, ApiCreate acme, Resolved)] \<and>
   \<not> isSyncing (processQueue serverUp (idle mixedDb))"
proof -
  have a: "entity createAssessment \<noteq> OrganizationEntity"
    by (simp add: createAssessment_def)
  have b: "\<not> isSyncing (idle mixedDb)" and c: "onLine (idle mixedDb)"
    by (simp_all add: idle_def)
  have d: "sync_queue (db (idle mixedDb)) = [] @ (1, createAssessment) # [(2, createAcme)]"
    and e: "distinct (map fst (sync_queue (db (idle mixedDb))))"
    by (simp_all add: idle_def mixedDb_def)
  have f: "processQueue serverUp (idle mixedDb) =
      \<lparr>db = \<lparr>organizations = [acme\<lparr>syncStatus := Synced\<rparr>],
              sync_queue = [(1, createAssessment\<lparr>error := Some undefinedHandlerMessage\<rparr>)],
              sync_queue_key = 2\<rparr>,
       isSyncing = False, onLine = True, remote = 1,
       network = [(2, ApiCreate acme, Resolved)]\<rparr>"
    by (simp add: run_defs mixedDb_def idle_def serverUp_def acme_def createAcme_def
        createAssessment_def)
  have g: "sync_queue (db (processQueue serverUp (idle mixedDb))) =
        [(1, createAssessment\<lparr>error := Some undefinedHandlerMessage\<rparr>)]"
    "network (processQueue serverUp (idle mixedDb)) = [(2, ApiCreate acme, Resolved)]"
    by (simp_all add: f)
  from unregistered_entity_does_not_abort [OF a b c d e, of serverUp] a b c d e g
  show ?thesis by blast
qed

text \<open>
  C10. Pushing a \<^verbatim>\<open>delete\<close> item with success: the rows of the Local Store are
  unchanged, and the Sync Queue loses the row with the item's key and nothing else.
\<close>

theorem delete_push_frame:
  assumes "action item = Delete"
    and "entityHandlers (entity item) = Some h"
    and "api (remote s) (apiCall item) = (Resolved, r)"
  shows "organizations (db (processItem api (k, item) s)) = organizations (db s) \<and>
         sync_queue (db (processItem api (k, item) s)) =
           filter (\<lambda>row. fst row \<noteq> k) (sync_queue (db s))"
  using assms by (simp add: processItem_resolved_delete sync_queue_delete_def)


theorem delete_push_frame_witness:
  "action deleteAcme = Delete \<and>
   entityHandlers (entity deleteAcme) = Some OrganizationHandler \<and>
   serverUp (remote (idle deletingDb)) (apiCall deleteAcme) = (Resolved, 1) \<and>
   organizations (db (processItem serverUp (2, deleteAcme) (idle deletingDb))) = [acme] \<and>
   sync_queue (db (processItem serverUp (2, deleteAcme) (idle deletingDb))) = [(1, createAcme)]"
proof -
  have a: "action deleteAcme = Delete" by (simp add: deleteAcme_def)
  have h: "entityHandlers (entity deleteAcme) = Some OrganizationHandler"
    by (simp add: deleteAcme_def entityHandlers_def)
  have r: "serverUp (remote (idle deletingDb)) (apiCall deleteAcme) = (Resolved, 1)"
    by (simp add: serverUp_def idle_def)
  show ?thesis
    using a h r
      delete_push_frame [where item = deleteAcme and h = OrganizationHandler
        and api = serverUp and s = "idle deletingDb" and r = 1 and k = 2]
    by (simp add: idle_def deletingDb_def)
qed

end
